theory Spec2Isabelle
  imports Main "HOL-Library.Multiset" "HOL-Library.Sublist"
begin

section \<open>The task tracker of \<^verbatim>\<open>src/task_tracker/main.py\<close>\<close>

subsection \<open>Data model\<close>

text \<open>
  A task is the dictionary the program builds in \<^verbatim>\<open>cmd_add\<close>: the keys
  \<^verbatim>\<open>id\<close>, \<^verbatim>\<open>title\<close>, \<^verbatim>\<open>status\<close>, \<^verbatim>\<open>created_at\<close> and \<^verbatim>\<open>done_at\<close>.
  The key \<^verbatim>\<open>id\<close> is the field \<open>task_id\<close> here (\<open>id\<close> is HOL's identity
  function). Python's integers are unbounded, so the id is an \<open>int\<close>. The status is the
  string the program compares with \<^verbatim>\<open>"done"\<close> and \<^verbatim>\<open>"open"\<close>; \<^verbatim>\<open>done_at\<close> is
  \<^verbatim>\<open>None\<close> or a timestamp string.
\<close>

record task =
  task_id :: int
  title :: string
  status :: string
  created_at :: string
  done_at :: "string option"

text \<open>
  What \<^verbatim>\<open>json.load\<close> can return: a list or a value that is not a list;
  \<^verbatim>\<open>_load\<close> only asks \<^verbatim>\<open>isinstance(data, list)\<close>. The elements of a list are
  taken to be task dictionaries with the five keys above, as every list the program
  itself writes is; a list with other elements is outside this model.
\<close>

datatype json = JList "task list" | JObject | JString string | JNumber int | JBool bool | JNull

text \<open>
  The JSON library is not part of the repository; the program uses two of its
  functions. \<open>json_dump\<close> is the text \<^verbatim>\<open>json.dump(tasks, f, ensure_ascii=False, indent=2)\<close>
  writes, \<open>json_load\<close> is what \<^verbatim>\<open>json.load(f)\<close> makes of a text, \<open>None\<close> when it
  raises \<^verbatim>\<open>json.JSONDecodeError\<close>. The type \<open>'x\<close> is the type of file contents: the
  texts that \<^verbatim>\<open>open(DATA_FILE, "r", encoding="utf-8")\<close> can read. The exceptions
  the program does not catch (a file that is not UTF-8, a file system error) are not
  modelled.
\<close>

record 'x json_lib =
  json_dump :: "json \<Rightarrow> 'x"
  json_load :: "'x \<Rightarrow> json option"

text \<open>The library's contract that what it writes it reads back.\<close>

definition reads_back :: "'x json_lib \<Rightarrow> bool" where
  "reads_back J = (\<forall>v. json_load J (json_dump J v) = Some v)"

text \<open>
  The smallest library with a parse error: a text is the print of a value or garbled.
  It instantiates the theorems below at concrete inputs.
\<close>

datatype ref_text = Printed json | Garbled

definition ref_lib :: "ref_text json_lib" where
  "ref_lib = \<lparr>json_dump = Printed,
              json_load = (\<lambda>x. case x of Printed v \<Rightarrow> Some v | Garbled \<Rightarrow> None)\<rparr>"

text \<open>
  One line of standard output, by the \<^verbatim>\<open>print\<close> call that writes it:
  \<^item> \<open>Added i t\<close>: \<^verbatim>\<open>added #{id}: {title}\<close> (\<^verbatim>\<open>cmd_add\<close>);
  \<^item> \<open>NoTasks\<close>: \<^verbatim>\<open>no tasks to show.\<close> (\<^verbatim>\<open>cmd_list\<close>);
  \<^item> \<open>TaskLine d i t\<close>: \<^verbatim>\<open>{status} #{id:>3}  {title}\<close>, \<open>d\<close> telling which of the two
    markers is shown (\<^verbatim>\<open>cmd_list\<close>);
  \<^item> \<open>AlreadyDone i\<close>: \<^verbatim>\<open>task #{tid} already done.\<close> (\<^verbatim>\<open>cmd_done\<close>);
  \<^item> \<open>Completed i t\<close>: \<^verbatim>\<open>completed #{tid}: {title}\<close> (\<^verbatim>\<open>cmd_done\<close>);
  \<^item> \<open>NotFound i\<close>: \<^verbatim>\<open>no task with id #{id} found.\<close> (\<^verbatim>\<open>cmd_done\<close>, \<^verbatim>\<open>cmd_delete\<close>);
  \<^item> \<open>Deleted i\<close>: \<^verbatim>\<open>deleted task #{id}\<close> (\<^verbatim>\<open>cmd_delete\<close>).
\<close>

datatype message =
    Added int string
  | NoTasks
  | TaskLine bool int string
  | AlreadyDone int
  | Completed int string
  | NotFound int
  | Deleted int

subsection \<open>Load, save and id allocation\<close>

text \<open>
  The state of the program between two runs is the file \<^verbatim>\<open>DATA_FILE\<close>: \<open>None\<close> when
  it does not exist, \<open>Some x\<close> when it holds \<open>x\<close>.

  \<^verbatim>\<open>_load\<close>: the empty list when the file does not exist, when \<^verbatim>\<open>json.load\<close> raises
  \<^verbatim>\<open>JSONDecodeError\<close> and when the value read is not a list.
\<close>

definition load :: "'x json_lib \<Rightarrow> 'x option \<Rightarrow> task list" where
  "load J file =
     (case file of
        None \<Rightarrow> []
      | Some x \<Rightarrow>
          (case json_load J x of
             None \<Rightarrow> []
           | Some data \<Rightarrow> (case data of JList ts \<Rightarrow> ts | _ \<Rightarrow> [])))"

text \<open>\<^verbatim>\<open>_save\<close> opens the file for writing, which replaces whatever it held.\<close>

definition save :: "'x json_lib \<Rightarrow> task list \<Rightarrow> 'x option \<Rightarrow> 'x option" where
  "save J tasks file = Some (json_dump J (JList tasks))"

text \<open>
  Python's \<^verbatim>\<open>max(iterable, default=d)\<close>: \<open>d\<close> on an empty iterable, else the first
  item, replaced by each later item that is greater.
\<close>

fun py_max :: "int \<Rightarrow> int list \<Rightarrow> int" where
  "py_max d [] = d"
| "py_max d (x # xs) = foldl (\<lambda>m v. if m < v then v else m) x xs"

definition next_id :: "task list \<Rightarrow> int" where
  "next_id tasks = py_max 0 (map task_id tasks) + 1"

subsection \<open>The commands\<close>

text \<open>
  \<^verbatim>\<open>str.strip()\<close> drops the white space at both ends; the characters below are
  the ASCII characters for which \<^verbatim>\<open>str.isspace\<close> holds.
\<close>

definition isspace :: "char \<Rightarrow> bool" where
  "isspace c = (c \<in> set [CHR 0x09, CHR 0x0A, CHR 0x0B, CHR 0x0C, CHR 0x0D,
                          CHR 0x1C, CHR 0x1D, CHR 0x1E, CHR 0x1F, CHR 0x20])"

definition strip :: "string \<Rightarrow> string" where
  "strip s = rev (dropWhile isspace (rev (dropWhile isspace s)))"

text \<open>
  Every command takes the file and returns the file it leaves and the lines it
  prints. \<open>now\<close> is what \<^verbatim>\<open>_now_iso()\<close> returns during the run.
\<close>

definition cmd_add :: "'x json_lib \<Rightarrow> string \<Rightarrow> string \<Rightarrow> 'x option \<Rightarrow> 'x option \<times> message list" where
  "cmd_add J now arg_title file =
     (let tasks = load J file;
          new_task = \<lparr>task_id = next_id tasks, title = strip arg_title, status = ''open'',
                      created_at = now, done_at = None\<rparr>;
          tasks = tasks @ [new_task]
      in (save J tasks file, [Added (task_id new_task) (title new_task)]))"

text \<open>The selection of \<^verbatim>\<open>cmd_list\<close>, tested in the order of the source.\<close>

definition list_view :: "bool \<Rightarrow> bool \<Rightarrow> task list \<Rightarrow> task list" where
  "list_view arg_all arg_done tasks =
     (if arg_all then tasks
      else if arg_done then [t \<leftarrow> tasks. status t = ''done'']
      else [t \<leftarrow> tasks. status t = ''open''])"

definition cmd_list :: "'x json_lib \<Rightarrow> bool \<Rightarrow> bool \<Rightarrow> 'x option \<Rightarrow> 'x option \<times> message list" where
  "cmd_list J arg_all arg_done file =
     (let tasks = load J file;
          view = list_view arg_all arg_done tasks
      in if view = [] then (file, [NoTasks])
         else (file, map (\<lambda>t. TaskLine (status t = ''done'') (task_id t) (title t)) view))"

text \<open>
  The loop of \<^verbatim>\<open>cmd_done\<close>. \<open>seen\<close> holds the tasks the loop has passed, so that
  \<open>seen @ t # rest\<close> is the whole list; the task is changed in place. The result is
  the list to save, if the loop saves, and the line printed.
\<close>

fun done_loop :: "string \<Rightarrow> int \<Rightarrow> task list \<Rightarrow> task list \<Rightarrow> task list option \<times> message" where
  "done_loop now tid seen [] = (None, NotFound tid)"
| "done_loop now tid seen (t # rest) =
     (if task_id t = tid then
        (if status t = ''done'' then (None, AlreadyDone tid)
         else (let t' = t\<lparr>status := ''done'', done_at := Some now\<rparr>
               in (Some (seen @ t' # rest), Completed tid (title t'))))
      else done_loop now tid (seen @ [t]) rest)"

definition cmd_done :: "'x json_lib \<Rightarrow> string \<Rightarrow> int \<Rightarrow> 'x option \<Rightarrow> 'x option \<times> message list" where
  "cmd_done J now tid file =
     (case done_loop now tid [] (load J file) of
        (None, line) \<Rightarrow> (file, [line])
      | (Some tasks, line) \<Rightarrow> (save J tasks file, [line]))"

definition cmd_delete :: "'x json_lib \<Rightarrow> int \<Rightarrow> 'x option \<Rightarrow> 'x option \<times> message list" where
  "cmd_delete J arg_id file =
     (let tasks = load J file;
          n_before = length tasks;
          tasks = [t \<leftarrow> tasks. task_id t \<noteq> arg_id]
      in if length tasks = n_before then (file, [NotFound arg_id])
         else (save J tasks file, [Deleted arg_id]))"

text \<open>
  The command line as \<^verbatim>\<open>build_parser\<close> accepts it. \<open>List a d\<close> carries the flags
  \<^verbatim>\<open>--all\<close> and \<^verbatim>\<open>--done\<close>, which the parser refuses together.
\<close>

datatype command = Add string | List bool bool | Done int | Delete int

text \<open>\<^verbatim>\<open>main\<close>: one run of the program. It loads the file once before the command does.\<close>

definition main :: "'x json_lib \<Rightarrow> string \<Rightarrow> command \<Rightarrow> 'x option \<Rightarrow> 'x option \<times> message list" where
  "main J now args file =
     (let _ = load J file
      in case args of
           Add t \<Rightarrow> cmd_add J now t file
         | List a d \<Rightarrow> cmd_list J a d file
         | Done i \<Rightarrow> cmd_done J now i file
         | Delete i \<Rightarrow> cmd_delete J i file)"

text \<open>
  Successive runs on the same file, each with the time of its run; the lines printed
  are collected in order.
\<close>

fun runs :: "'x json_lib \<Rightarrow> (string \<times> command) list \<Rightarrow> 'x option \<Rightarrow> 'x option \<times> message list" where
  "runs J [] file = (file, [])"
| "runs J ((now, args) # rest) file =
     (case main J now args file of
        (file', out) \<Rightarrow> (case runs J rest file' of (file'', outs) \<Rightarrow> (file'', out @ outs)))"

text \<open>The ids that the \<^verbatim>\<open>add\<close> commands of a run announced, in order.\<close>

fun added_ids :: "message list \<Rightarrow> int list" where
  "added_ids [] = []"
| "added_ids (Added i t # ms) = i # added_ids ms"
| "added_ids (m # ms) = added_ids ms"

subsection \<open>Predicates of the properties\<close>

text \<open>
  The store invariant on status and completion time: a task that is done has a
  \<^verbatim>\<open>done_at\<close>, a task that is open has none.
\<close>

definition store_inv :: "task list \<Rightarrow> bool" where
  "store_inv tasks =
     (\<forall>t\<in>set tasks. (status t = ''done'' \<longrightarrow> done_at t \<noteq> None) \<and>
                      (status t = ''open'' \<longrightarrow> done_at t = None))"

text \<open>
  No \<^verbatim>\<open>delete\<close> of the runs removes the task with the greatest id: whenever a run
  deletes id \<open>k\<close> and the store holds it, the store holds a greater id as well.
\<close>

fun spares_greatest :: "'x json_lib \<Rightarrow> (string \<times> command) list \<Rightarrow> 'x option \<Rightarrow> bool" where
  "spares_greatest J [] file = True"
| "spares_greatest J ((now, args) # rest) file =
     ((case args of
         Delete k \<Rightarrow> (\<forall>t\<in>set (load J file). task_id t = k \<longrightarrow>
                        (\<exists>u\<in>set (load J file). k < task_id u))
       | _ \<Rightarrow> True) \<and>
      spares_greatest J rest (fst (main J now args file)))"

subsection \<open>Example data\<close>

abbreviation milk :: task where
  "milk \<equiv> \<lparr>task_id = 1, title = ''Buy milk'', status = ''open'',
            created_at = ''2024-05-01T10:00:00'', done_at = None\<rparr>"

abbreviation bob :: task where
  "bob \<equiv> \<lparr>task_id = 2, title = ''Call Bob'', status = ''done'',
           created_at = ''2024-05-01T10:05:00'', done_at = Some ''2024-05-02T08:30:00''\<rparr>"

abbreviation milk_bob :: "ref_text option" where
  "milk_bob \<equiv> Some (Printed (JList [milk, bob]))"

section \<open>Id allocation\<close>

lemma foldl_greater_Max:
  "foldl (\<lambda>m v. if m < v then v else m) (x :: int) xs = Max (set (x # xs))"
proof -
  have "(\<lambda>v m. if m < v then v else m) = (max :: int \<Rightarrow> int \<Rightarrow> int)"
    by (auto simp: max_def fun_eq_iff)
  then have "fold (\<lambda>v m. if m < v then v else m) xs x = fold max xs x"
    by (rule arg_cong [where f = "\<lambda>f. fold f xs x"])
  then have "foldl (\<lambda>m v. if m < v then v else m) x xs = fold max xs x"
    by (simp add: foldl_conv_fold)
  then show ?thesis
    by (simp only: Max.set_eq_fold)
qed

lemma next_id_Nil: "next_id [] = 1"
  by (simp add: next_id_def)

lemma next_id_Max: "tasks \<noteq> [] \<Longrightarrow> next_id tasks = 1 + Max (task_id ` set tasks)"
  by (cases tasks) (simp_all add: next_id_def foldl_greater_Max del: Max_insert)

lemma next_id_ids: "map task_id ts = map task_id us \<Longrightarrow> next_id ts = next_id us"
  by (simp add: next_id_def)

lemma next_id_snoc: "task_id t = next_id ts \<Longrightarrow> next_id (ts @ [t]) = next_id ts + 1"
proof (cases "ts = []")
  case True
  assume "task_id t = next_id ts"
  with True show ?thesis by (simp add: next_id_def)
next
  case False
  assume t: "task_id t = next_id ts"
  from False have n: "next_id ts = 1 + Max (task_id ` set ts)"
    by (rule next_id_Max)
  have "Max (insert (task_id t) (task_id ` set ts)) = max (task_id t) (Max (task_id ` set ts))"
    using False by (intro Max_insert) simp_all
  with t n have "Max (task_id ` set (ts @ [t])) = task_id t"
    by simp
  with next_id_Max [of "ts @ [t]"] t show ?thesis by simp
qed

lemma next_id_filter:
  assumes "\<forall>t\<in>set ts. task_id t = k \<longrightarrow> (\<exists>u\<in>set ts. k < task_id u)"
  shows "next_id [t \<leftarrow> ts. task_id t \<noteq> k] = next_id ts"
proof (cases "k \<in> task_id ` set ts")
  case False
  then have "[t \<leftarrow> ts. task_id t \<noteq> k] = ts"
    by (auto simp: filter_id_conv)
  then show ?thesis by simp
next
  case True
  with assms obtain u where u: "u \<in> set ts" "k < task_id u" by auto
  let ?A = "task_id ` set ts" and ?B = "task_id ` set [t \<leftarrow> ts. task_id t \<noteq> k]"
  from u have ne: "ts \<noteq> []" "[t \<leftarrow> ts. task_id t \<noteq> k] \<noteq> []"
    by (auto simp: filter_empty_conv)
  have "Max ?A \<in> ?A" using ne by (intro Max_in) simp_all
  moreover have "task_id u \<le> Max ?A" using u by simp
  ultimately obtain x where "x \<in> set ts" "task_id x = Max ?A" "task_id x \<noteq> k"
    using u by force
  then have "x \<in> set [t \<leftarrow> ts. task_id t \<noteq> k]" by simp
  then have "task_id x \<in> ?B" by (rule imageI)
  with \<open>task_id x = Max ?A\<close> have "Max ?A \<in> ?B" by simp
  then have "Max ?A \<le> Max ?B" by simp
  moreover have "Max ?B \<le> Max ?A"
  proof (rule Max_mono)
    show "?B \<subseteq> ?A" by auto
    show "?B \<noteq> {}" using ne(2) by (metis image_is_empty set_empty)
    show "finite ?A" by simp
  qed
  ultimately have "Max ?B = Max ?A" by simp
  with ne show ?thesis by (simp add: next_id_Max)
qed

text \<open>
  C6. For every task sequence, next-id allocation returns 1 when the sequence is empty
  and 1 plus the maximum of the existing ids otherwise.
\<close>

theorem next_id_empty_or_max_plus_one:
  "next_id tasks = (if tasks = [] then 1 else 1 + Max (task_id ` set tasks))"
  by (simp add: next_id_Nil next_id_Max)

text \<open>
  C10. For every list of task records whose ids are arbitrary integers (zero and negative
  ones included), next-id allocation returns an integer strictly greater than every id in
  the list, so the new id equals no existing id; and the value returned is not positive
  when the list is not empty and all its ids are negative.
\<close>

theorem next_id_above_every_id:
  "(\<forall>t\<in>set tasks. task_id t < next_id tasks \<and> next_id tasks \<noteq> task_id t) \<and>
   (tasks \<noteq> [] \<and> (\<forall>t\<in>set tasks. task_id t < 0) \<longrightarrow> next_id tasks \<le> 0)"
proof (cases "tasks = []")
  case True
  then show ?thesis by simp
next
  case False
  then have n: "next_id tasks = 1 + Max (task_id ` set tasks)"
    by (rule next_id_Max)
  have above: "task_id t < next_id tasks" if "t \<in> set tasks" for t
  proof -
    from that have "task_id t \<le> Max (task_id ` set tasks)" by simp
    with n show ?thesis by simp
  qed
  have neg: "next_id tasks \<le> 0" if "\<forall>t\<in>set tasks. task_id t < 0"
  proof -
    from False have "Max (task_id ` set tasks) \<in> task_id ` set tasks"
      by (intro Max_in) simp_all
    with that have "Max (task_id ` set tasks) < 0" by auto
    with n show ?thesis by simp
  qed
  from above neg show ?thesis by fastforce
qed

theorem next_id_above_every_id_witness:
  "next_id [milk\<lparr>task_id := - 5\<rparr>, bob\<lparr>task_id := - 2\<rparr>] = - 1 \<and>
   task_id (milk\<lparr>task_id := - 5\<rparr>) < next_id [milk\<lparr>task_id := - 5\<rparr>, bob\<lparr>task_id := - 2\<rparr>] \<and>
   task_id (bob\<lparr>task_id := - 2\<rparr>) < next_id [milk\<lparr>task_id := - 5\<rparr>, bob\<lparr>task_id := - 2\<rparr>] \<and>
   next_id [milk\<lparr>task_id := - 5\<rparr>, bob\<lparr>task_id := - 2\<rparr>] \<le> 0"
  using next_id_above_every_id [of "[milk\<lparr>task_id := - 5\<rparr>, bob\<lparr>task_id := - 2\<rparr>]"]
  by (simp add: next_id_def)

section \<open>Load and save\<close>

lemma load_save:
  "json_load J (json_dump J (JList tasks)) = Some (JList tasks) \<Longrightarrow> load J (save J tasks file) = tasks"
  by (simp add: load_def save_def)

lemma load_save_reads_back: "reads_back J \<Longrightarrow> load J (save J tasks file) = tasks"
  by (simp add: load_save reads_back_def)

lemma reads_back_ref_lib: "reads_back ref_lib"
  by (simp add: reads_back_def ref_lib_def)





section \<open>Listing\<close>



section \<open>Deleting\<close>

lemma length_filter_same:
  "(length [t \<leftarrow> ts. task_id t \<noteq> k] = length ts) = (k \<notin> task_id ` set ts)"
proof (induction ts)
  case Nil
  show ?case by simp
next
  case (Cons a ts)
  have le: "length [t \<leftarrow> ts. task_id t \<noteq> k] \<le> length ts"
    by (rule length_filter_le)
  show ?case
  proof (cases "task_id a = k")
    case True
    with le show ?thesis by (simp del: length_filter_le)
  next
    case False
    with Cons show ?thesis by simp
  qed
qed

lemma cmd_delete_cases:
  "cmd_delete J k file =
     (if k \<in> task_id ` set (load J file)
      then (save J [t \<leftarrow> load J file. task_id t \<noteq> k] file, [Deleted k])
      else (file, [NotFound k]))"
  by (simp add: cmd_delete_def Let_def length_filter_same)

lemma load_after_delete:
  assumes "reads_back J"
  shows "load J (fst (cmd_delete J k file)) = [t \<leftarrow> load J file. task_id t \<noteq> k]"
proof (cases "k \<in> task_id ` set (load J file)")
  case True
  then show ?thesis
    using assms by (simp add: cmd_delete_cases load_save_reads_back)
next
  case False
  then have "[t \<leftarrow> load J file. task_id t \<noteq> k] = load J file"
    by (auto simp: filter_id_conv)
  with False show ?thesis
    by (simp add: cmd_delete_cases)
qed

text \<open>
  C3. For every store and integer \<open>k\<close>, \<^verbatim>\<open>delete k\<close> removes exactly the tasks whose
  id is \<open>k\<close> and leaves every other task as it is, in the same relative order: when
  some task has id \<open>k\<close> it saves the store without these tasks and prints the
  confirmation; when no task has id \<open>k\<close> it does not save and prints the not-found line.
  Read with a JSON library that reads back what it wrote, the store after the command is
  the store before it without the tasks of id \<open>k\<close>.
\<close>

theorem delete_exact:
  assumes "reads_back J"
  shows "(k \<in> task_id ` set (load J file) \<longrightarrow>
            cmd_delete J k file = (save J [t \<leftarrow> load J file. task_id t \<noteq> k] file, [Deleted k])) \<and>
         (k \<notin> task_id ` set (load J file) \<longrightarrow> cmd_delete J k file = (file, [NotFound k])) \<and>
         load J (fst (cmd_delete J k file)) = [t \<leftarrow> load J file. task_id t \<noteq> k] \<and>
         set (load J (fst (cmd_delete J k file))) = set (load J file) - {t. task_id t = k} \<and>
         subseq (load J (fst (cmd_delete J k file))) (load J file)"
proof -
  note after = load_after_delete [OF assms, of k "file"]
  have "k \<in> task_id ` set (load J file) \<longrightarrow>
          cmd_delete J k file = (save J [t \<leftarrow> load J file. task_id t \<noteq> k] file, [Deleted k])"
    and "k \<notin> task_id ` set (load J file) \<longrightarrow> cmd_delete J k file = (file, [NotFound k])"
    by (simp_all add: cmd_delete_cases)
  moreover have "set [t \<leftarrow> load J file. task_id t \<noteq> k] = set (load J file) - {t. task_id t = k}"
    by auto
  moreover have "subseq [t \<leftarrow> load J file. task_id t \<noteq> k] (load J file)"
    by simp
  ultimately show ?thesis
    unfolding after by blast
qed

theorem delete_exact_witness:
  "reads_back ref_lib \<and>
   cmd_delete ref_lib 1 milk_bob = (Some (Printed (JList [bob])), [Deleted 1]) \<and>
   load ref_lib (fst (cmd_delete ref_lib 1 milk_bob)) = [bob] \<and>
   cmd_delete ref_lib 7 milk_bob = (milk_bob, [NotFound 7]) \<and>
   load ref_lib (fst (cmd_delete ref_lib 7 milk_bob)) = [milk, bob]"
  using delete_exact [OF reads_back_ref_lib, of 1 milk_bob]
    delete_exact [OF reads_back_ref_lib, of 7 milk_bob] reads_back_ref_lib
  by (simp add: load_def save_def ref_lib_def)

section \<open>Completing\<close>

lemma done_loop_absent:
  "tid \<notin> task_id ` set ts \<Longrightarrow> done_loop now tid seen ts = (None, NotFound tid)"
  by (induction ts arbitrary: seen) auto

lemma done_loop_first:
  "tid \<notin> task_id ` set pre \<Longrightarrow> task_id t = tid \<Longrightarrow>
   done_loop now tid seen (pre @ t # post) =
     (if status t = ''done'' then (None, AlreadyDone tid)
      else (Some (seen @ pre @ t\<lparr>status := ''done'', done_at := Some now\<rparr> # post),
            Completed tid (title t)))"
  by (induction pre arbitrary: seen) (auto simp: Let_def)

lemma split_first_id:
  "tid \<in> task_id ` set ts \<Longrightarrow>
   \<exists>pre t post. ts = pre @ t # post \<and> task_id t = tid \<and> tid \<notin> task_id ` set pre"
proof -
  assume "tid \<in> task_id ` set ts"
  then have "\<exists>t\<in>set ts. task_id t = tid" by auto
  from split_list_first_prop [OF this]
  obtain pre t post where "ts = pre @ t # post" "task_id t = tid" "\<forall>y\<in>set pre. task_id y \<noteq> tid"
    by blast
  then show ?thesis by (intro exI [of _ pre] exI [of _ t] exI [of _ post]) auto
qed

lemma cmd_done_absent:
  "tid \<notin> task_id ` set (load J file) \<Longrightarrow> cmd_done J now tid file = (file, [NotFound tid])"
  by (simp add: cmd_done_def done_loop_absent)

lemma cmd_done_first:
  "load J file = pre @ t # post \<Longrightarrow> tid \<notin> task_id ` set pre \<Longrightarrow> task_id t = tid \<Longrightarrow>
   cmd_done J now tid file =
     (if status t = ''done'' then (file, [AlreadyDone tid])
      else (save J (pre @ t\<lparr>status := ''done'', done_at := Some now\<rparr> # post) file,
            [Completed tid (title t)]))"
  by (simp add: cmd_done_def done_loop_first)

lemma map_mark_distinct:
  assumes "distinct (map task_id (pre @ t # post))"
  shows "map (\<lambda>u. if task_id u = task_id t then f u else u) (pre @ t # post) = pre @ f t # post"
proof -
  from assms have "task_id t \<notin> task_id ` set pre" "task_id t \<notin> task_id ` set post"
    by auto
  then have "\<forall>u\<in>set pre. task_id u \<noteq> task_id t" "\<forall>u\<in>set post. task_id u \<noteq> task_id t"
    by (metis imageI)+
  then have "map (\<lambda>u. if task_id u = task_id t then f u else u) pre = pre"
    "map (\<lambda>u. if task_id u = task_id t then f u else u) post = post"
    by (simp_all add: map_idI)
  then show ?thesis by simp
qed

text \<open>
  C2. For every store (its ids pairwise distinct) and integer id, \<^verbatim>\<open>done id\<close> behaves by
  cases. If a task has that id and its status is done, the file is left as it is and
  the already-done line is printed. If a task has that id and its status is open, the
  store is saved with that task's status set to done and its \<^verbatim>\<open>done_at\<close> set to the
  current time, every other task as before, and the confirmation with id and title is
  printed. If no task has that id, the file is left as it is and the not-found line with
  the id is printed.
\<close>

theorem done_by_cases:
  assumes "distinct (map task_id (load J file))"
  shows "(\<forall>t\<in>set (load J file). task_id t = tid \<and> status t = ''done'' \<longrightarrow>
            cmd_done J now tid file = (file, [AlreadyDone tid])) \<and>
         (\<forall>t\<in>set (load J file). task_id t = tid \<and> status t = ''open'' \<longrightarrow>
            cmd_done J now tid file =
              (save J (map (\<lambda>u. if task_id u = tid
                                 then u\<lparr>status := ''done'', done_at := Some now\<rparr> else u)
                           (load J file)) file,
               [Completed tid (title t)])) \<and>
         (tid \<notin> task_id ` set (load J file) \<longrightarrow> cmd_done J now tid file = (file, [NotFound tid]))"
proof -
  have found: "cmd_done J now tid file =
      (if status t = ''done'' then (file, [AlreadyDone tid])
       else (save J (map (\<lambda>u. if task_id u = tid
                                 then u\<lparr>status := ''done'', done_at := Some now\<rparr> else u)
                           (load J file)) file,
               [Completed tid (title t)]))"
    if t: "t \<in> set (load J file)" "task_id t = tid" for t
  proof -
    from t(1) obtain pre post where l: "load J file = pre @ t # post"
      by (auto simp: in_set_conv_decomp)
    with assms t(2) have "tid \<notin> task_id ` set pre" by auto
    from cmd_done_first [OF l this t(2)] map_mark_distinct [of pre t post] assms l t(2)
    show ?thesis by simp
  qed
  show ?thesis
    using cmd_done_absent [of tid J "file" now]
    by (auto simp: found)
qed

theorem done_by_cases_witness:
  "distinct (map task_id (load ref_lib milk_bob)) \<and>
   cmd_done ref_lib ''2024-05-03T09:00:00'' 2 milk_bob = (milk_bob, [AlreadyDone 2]) \<and>
   cmd_done ref_lib ''2024-05-03T09:00:00'' 1 milk_bob =
     (Some (Printed (JList [milk\<lparr>status := ''done'', done_at := Some ''2024-05-03T09:00:00''\<rparr>, bob])),
      [Completed 1 ''Buy milk'']) \<and>
   cmd_done ref_lib ''2024-05-03T09:00:00'' 7 milk_bob = (milk_bob, [NotFound 7])"
proof -
  have l: "load ref_lib milk_bob = [milk, bob]"
    by (simp add: load_def ref_lib_def)
  then have d: "distinct (map task_id (load ref_lib milk_bob))"
    by simp
  from d done_by_cases [OF d, of 2 "''2024-05-03T09:00:00''"]
    done_by_cases [OF d, of 1 "''2024-05-03T09:00:00''"]
    done_by_cases [OF d, of 7 "''2024-05-03T09:00:00''"]
  show ?thesis
    unfolding l by (simp add: save_def ref_lib_def)
qed

text \<open>
  C7. For every file and integer id, running \<^verbatim>\<open>done id\<close> a second time leaves the file
  that the first run left: the second run changes nothing and only prints the
  already-done line or the not-found line. The JSON library reads back what the first
  run wrote.
\<close>

theorem done_twice:
  assumes "reads_back J"
  shows "fst (cmd_done J now' tid (fst (cmd_done J now tid file))) = fst (cmd_done J now tid file) \<and>
         snd (cmd_done J now' tid (fst (cmd_done J now tid file))) \<in> {[AlreadyDone tid], [NotFound tid]}"
proof (cases "tid \<in> task_id ` set (load J file)")
  case False
  then show ?thesis by (simp add: cmd_done_absent)
next
  case True
  from split_first_id [OF this] obtain pre t post
    where l: "load J file = pre @ t # post" and t: "task_id t = tid" "tid \<notin> task_id ` set pre"
    by blast
  note first = cmd_done_first [OF l t(2) t(1)]
  show ?thesis
  proof (cases "status t = ''done''")
    case True
    with first [of now] first [of now'] show ?thesis by simp
  next
    case False
    let ?t = "t\<lparr>status := ''done'', done_at := Some now\<rparr>"
    let ?file = "save J (pre @ ?t # post) file"
    from False first [of now] have one: "cmd_done J now tid file = (?file, [Completed tid (title t)])"
      by simp
    have "load J ?file = pre @ ?t # post"
      using assms by (rule load_save_reads_back)
    from cmd_done_first [OF this t(2), of now'] t(1)
    have "cmd_done J now' tid ?file = (?file, [AlreadyDone tid])" by simp
    with one show ?thesis by simp
  qed
qed

theorem done_twice_witness:
  "reads_back ref_lib \<and>
   fst (cmd_done ref_lib ''2024-05-03T09:00:00'' 1 milk_bob) =
     Some (Printed (JList [milk\<lparr>status := ''done'', done_at := Some ''2024-05-03T09:00:00''\<rparr>, bob])) \<and>
   cmd_done ref_lib ''2024-05-04T11:00:00'' 1 (fst (cmd_done ref_lib ''2024-05-03T09:00:00'' 1 milk_bob)) =
     (Some (Printed (JList [milk\<lparr>status := ''done'', done_at := Some ''2024-05-03T09:00:00''\<rparr>, bob])),
      [AlreadyDone 1])"
  using done_twice [OF reads_back_ref_lib, of "''2024-05-04T11:00:00''" 1 "''2024-05-03T09:00:00''" milk_bob]
    reads_back_ref_lib
  by (simp add: cmd_done_def load_def save_def ref_lib_def)

section \<open>The invariant of the store\<close>

lemma load_after_add:
  "reads_back J \<Longrightarrow>
   load J (fst (cmd_add J now arg_title file)) =
     load J file @ [\<lparr>task_id = next_id (load J file), title = strip arg_title, status = ''open'',
                     created_at = now, done_at = None\<rparr>]"
  by (simp add: cmd_add_def Let_def load_save_reads_back)

lemma file_after_list: "fst (cmd_list J a d file) = file"
  by (simp add: cmd_list_def Let_def)

lemma load_after_done:
  assumes "reads_back J"
  shows "load J (fst (cmd_done J now tid file)) = load J file \<or>
         (\<exists>pre t post. load J file = pre @ t # post \<and> task_id t = tid \<and> status t \<noteq> ''done'' \<and>
            load J (fst (cmd_done J now tid file)) =
              pre @ t\<lparr>status := ''done'', done_at := Some now\<rparr> # post)"
proof (cases "tid \<in> task_id ` set (load J file)")
  case False
  then show ?thesis by (simp add: cmd_done_absent)
next
  case True
  from split_first_id [OF this] obtain pre t post
    where l: "load J file = pre @ t # post" and t: "task_id t = tid" "tid \<notin> task_id ` set pre"
    by blast
  note first = cmd_done_first [OF l t(2) t(1), of now]
  show ?thesis
  proof (cases "status t = ''done''")
    case True
    with first show ?thesis by simp
  next
    case False
    with first assms
    have "load J (fst (cmd_done J now tid file)) =
            pre @ t\<lparr>status := ''done'', done_at := Some now\<rparr> # post"
      by (simp add: load_save_reads_back)
    with l t(1) False show ?thesis by blast
  qed
qed

lemma store_inv_mark:
  "store_inv (pre @ t # post) \<Longrightarrow>
   store_inv (pre @ t\<lparr>status := ''done'', done_at := Some now\<rparr> # post)"
  by (auto simp: store_inv_def)

lemma done_kept_mark:
  assumes "status t \<noteq> ''done''" and "i < length (pre @ t # post)"
    and "status ((pre @ t # post) ! i) = ''done''"
  shows "(pre @ t\<lparr>status := ''done'', done_at := Some now\<rparr> # post) ! i = (pre @ t # post) ! i"
proof -
  from assms(1,3) have "i \<noteq> length pre"
    by auto
  then show ?thesis
    by (auto simp: nth_append nth_Cons split: nat.splits)
qed

text \<open>
  C9. Every command (add, list, done, delete) preserves the store invariant that each
  task with status done has a \<^verbatim>\<open>done_at\<close> and each task with status open has none. And
  done is terminal: \<^verbatim>\<open>delete k\<close> leaves the store without the tasks of id \<open>k\<close> and the
  other tasks as they were, and after every other command each task that was done stands
  at its place with all its fields as before, its status and \<^verbatim>\<open>done_at\<close> among them.
  The JSON library reads back what the command wrote.
\<close>

theorem commands_keep_invariant:
  assumes "reads_back J"
  shows "(store_inv (load J file) \<longrightarrow> store_inv (load J (fst (main J now c file)))) \<and>
         (case c of
            Delete k \<Rightarrow> load J (fst (main J now c file)) = [t \<leftarrow> load J file. task_id t \<noteq> k]
          | _ \<Rightarrow> length (load J file) \<le> length (load J (fst (main J now c file))) \<and>
                 (\<forall>i < length (load J file). status (load J file ! i) = ''done'' \<longrightarrow>
                    load J (fst (main J now c file)) ! i = load J file ! i))"
proof (cases c)
  case (Add ttl)
  then have "load J (fst (main J now c file)) =
     load J file @ [\<lparr>task_id = next_id (load J file), title = strip ttl, status = ''open'',
                     created_at = now, done_at = None\<rparr>]"
    using assms by (simp add: main_def load_after_add)
  with Add show ?thesis
    by (auto simp: store_inv_def nth_append)
next
  case (List a d)
  then have "fst (main J now c file) = file"
    by (simp add: main_def file_after_list)
  with List show ?thesis by simp
next
  case (Done tid)
  then have m: "fst (main J now c file) = fst (cmd_done J now tid file)"
    by (simp add: main_def)
  from load_after_done [OF assms, of now tid "file"]
  show ?thesis
  proof (elim disjE exE conjE)
    assume "load J (fst (cmd_done J now tid file)) = load J file"
    with Done m show ?thesis by simp
  next
    fix pre t post
    assume "load J file = pre @ t # post" "task_id t = tid" "status t \<noteq> ''done''"
      "load J (fst (cmd_done J now tid file)) =
         pre @ t\<lparr>status := ''done'', done_at := Some now\<rparr> # post"
    with Done m show ?thesis
      by (simp add: store_inv_mark done_kept_mark)
  qed
next
  case (Delete k)
  then have "load J (fst (main J now c file)) = [t \<leftarrow> load J file. task_id t \<noteq> k]"
    using assms by (simp add: main_def load_after_delete)
  with Delete show ?thesis
    by (auto simp: store_inv_def)
qed

theorem commands_keep_invariant_witness:
  "reads_back ref_lib \<and> store_inv (load ref_lib milk_bob) \<and>
   load ref_lib (fst (main ref_lib ''2024-05-03T09:00:00'' (Done 1) milk_bob)) =
     [milk\<lparr>status := ''done'', done_at := Some ''2024-05-03T09:00:00''\<rparr>, bob] \<and>
   store_inv (load ref_lib (fst (main ref_lib ''2024-05-03T09:00:00'' (Done 1) milk_bob))) \<and>
   status (load ref_lib milk_bob ! 1) = ''done'' \<and>
   load ref_lib (fst (main ref_lib ''2024-05-03T09:00:00'' (Done 1) milk_bob)) ! 1 =
     load ref_lib milk_bob ! 1 \<and>
   load ref_lib (fst (main ref_lib ''2024-05-03T09:00:00'' (Delete 2) milk_bob)) = [milk] \<and>
   store_inv (load ref_lib (fst (main ref_lib ''2024-05-03T09:00:00'' (Delete 2) milk_bob)))"
  using commands_keep_invariant [OF reads_back_ref_lib, of milk_bob "''2024-05-03T09:00:00''" "Done 1"]
    commands_keep_invariant [OF reads_back_ref_lib, of milk_bob "''2024-05-03T09:00:00''" "Delete 2"]
    reads_back_ref_lib
  by (simp add: store_inv_def main_def cmd_done_def cmd_delete_def load_def save_def ref_lib_def)

section \<open>Ids over successive runs\<close>

lemma added_ids_append: "added_ids (xs @ ys) = added_ids xs @ added_ids ys"
  by (induction xs rule: added_ids.induct) simp_all

lemma added_ids_list: "added_ids (snd (cmd_list J a d file)) = []"
proof -
  have no_add: "added_ids (map (\<lambda>t. TaskLine (status t = ''done'') (task_id t) (title t)) ts) = []"
    for ts
    by (induction ts) simp_all
  show ?thesis by (simp add: cmd_list_def Let_def no_add)
qed

lemma added_ids_done: "added_ids (snd (cmd_done J now tid file)) = []"
proof -
  have "added_ids [snd (done_loop now tid seen ts)] = []" for seen ts
    by (induction ts arbitrary: seen) (simp_all add: Let_def)
  from this [of "[]" "load J file"] show ?thesis
    by (cases "done_loop now tid [] (load J file)") (auto simp: cmd_done_def split: option.splits)
qed

lemma added_ids_delete: "added_ids (snd (cmd_delete J k file)) = []"
  by (simp add: cmd_delete_cases)

lemma added_ids_add: "added_ids (snd (cmd_add J now ttl file)) = [next_id (load J file)]"
  by (simp add: cmd_add_def Let_def)

lemma next_id_after_done:
  assumes "reads_back J"
  shows "next_id (load J (fst (cmd_done J now tid file))) = next_id (load J file)"
  using load_after_done [OF assms, of now tid "file"]
  by (auto intro!: next_id_ids)

lemma runs_ids_increase:
  assumes "reads_back J"
  shows "spares_greatest J cmds file \<Longrightarrow>
         sorted_wrt (<) (added_ids (snd (runs J cmds file))) \<and>
         (\<forall>i\<in>set (added_ids (snd (runs J cmds file))). next_id (load J file) \<le> i)"
proof (induction cmds arbitrary: "file")
  case Nil
  show ?case by simp
next
  case (Cons a cmds)
  obtain now c where a: "a = (now, c)" by (cases a)
  let ?file = "fst (main J now c file)"
  let ?rest = "added_ids (snd (runs J cmds ?file))"
  from Cons.prems a have sp: "spares_greatest J cmds ?file" by simp
  from Cons.IH [OF sp]
  have ih: "sorted_wrt (<) ?rest" "\<forall>i\<in>set ?rest. next_id (load J ?file) \<le> i"
    by simp_all
  have out: "added_ids (snd (runs J (a # cmds) file)) = added_ids (snd (main J now c file)) @ ?rest"
    by (simp add: a added_ids_append split: prod.splits)
  show ?case
  proof (cases c)
    case (Add ttl)
    have "load J ?file = load J file @ [\<lparr>task_id = next_id (load J file), title = strip ttl,
        status = ''open'', created_at = now, done_at = None\<rparr>]"
      using assms by (simp add: Add main_def load_after_add)
    then have "next_id (load J ?file) = next_id (load J file) + 1"
      by (simp add: next_id_snoc)
    moreover have "added_ids (snd (main J now c file)) = [next_id (load J file)]"
      by (simp add: Add main_def added_ids_add)
    ultimately show ?thesis
      using ih out by force
  next
    case (List x y)
    then have "?file = file" "added_ids (snd (main J now c file)) = []"
      by (simp_all add: main_def file_after_list added_ids_list)
    with ih out show ?thesis by simp
  next
    case (Done tid)
    then have "next_id (load J ?file) = next_id (load J file)"
      "added_ids (snd (main J now c file)) = []"
      using assms by (simp_all add: main_def next_id_after_done added_ids_done)
    with ih out show ?thesis by simp
  next
    case (Delete k)
    with Cons.prems a
    have "\<forall>t\<in>set (load J file). task_id t = k \<longrightarrow> (\<exists>u\<in>set (load J file). k < task_id u)"
      by simp
    then have "next_id [t \<leftarrow> load J file. task_id t \<noteq> k] = next_id (load J file)"
      by (rule next_id_filter)
    with Delete have "next_id (load J ?file) = next_id (load J file)"
      "added_ids (snd (main J now c file)) = []"
      using assms by (simp_all add: main_def load_after_delete added_ids_delete)
    with ih out show ?thesis by simp
  qed
qed

text \<open>
  C1, as amended. For every sequence of runs that starts from the empty store and in
  which no \<^verbatim>\<open>delete\<close> removes the task with the greatest id, the ids that the
  successive \<^verbatim>\<open>add\<close> commands assign are strictly increasing, so no id is assigned
  twice, also when the task that held it was deleted in between; and they are positive.
  The JSON library reads back what each run wrote.
\<close>

theorem add_ids_increase:
  assumes "reads_back J" and "load J file = []" and "spares_greatest J cmds file"
  shows "sorted_wrt (<) (added_ids (snd (runs J cmds file))) \<and>
         distinct (added_ids (snd (runs J cmds file))) \<and>
         (\<forall>i\<in>set (added_ids (snd (runs J cmds file))). 0 < i)"
proof -
  from runs_ids_increase [OF assms(1,3)] assms(2)
  have s: "sorted_wrt (<) (added_ids (snd (runs J cmds file)))"
    and p: "\<forall>i\<in>set (added_ids (snd (runs J cmds file))). 1 \<le> i"
    by (simp_all add: next_id_Nil)
  from s have "distinct (added_ids (snd (runs J cmds file)))"
    by (simp add: strict_sorted_iff)
  with s p show ?thesis by auto
qed

theorem add_ids_increase_witness:
  "reads_back ref_lib \<and> load ref_lib None = [] \<and>
   spares_greatest ref_lib [(''09:00'', Add ''A''), (''09:01'', Add ''B''), (''09:02'', Delete 1),
      (''09:03'', Add ''C'')] None \<and>
   added_ids (snd (runs ref_lib [(''09:00'', Add ''A''), (''09:01'', Add ''B''), (''09:02'', Delete 1),
      (''09:03'', Add ''C'')] None)) = [1, 2, 3] \<and>
   sorted_wrt (<) (added_ids (snd (runs ref_lib [(''09:00'', Add ''A''), (''09:01'', Add ''B''),
      (''09:02'', Delete 1), (''09:03'', Add ''C'')] None))) \<and>
   distinct (added_ids (snd (runs ref_lib [(''09:00'', Add ''A''), (''09:01'', Add ''B''),
      (''09:02'', Delete 1), (''09:03'', Add ''C'')] None)))"
  using add_ids_increase [OF reads_back_ref_lib, of None
      "[(''09:00'', Add ''A''), (''09:01'', Add ''B''), (''09:02'', Delete 1), (''09:03'', Add ''C'')]"]
    reads_back_ref_lib
  by (simp add: main_def cmd_add_def cmd_delete_def load_def save_def ref_lib_def next_id_def
      strip_def isspace_def Let_def)

text \<open>
  C1, as stated, fails: from the empty store, \<^verbatim>\<open>add A\<close>, \<^verbatim>\<open>add B\<close>, \<^verbatim>\<open>delete 2\<close>,
  \<^verbatim>\<open>add C\<close> assign the ids 1, 2 and 2. The id of the deleted task is assigned again.
\<close>

theorem add_ids_reused_counterexample:
  "added_ids (snd (runs ref_lib [(''09:00'', Add ''A''), (''09:01'', Add ''B''), (''09:02'', Delete 2),
      (''09:03'', Add ''C'')] None)) = [1, 2, 2] \<and>
   \<not> sorted_wrt (<) (added_ids (snd (runs ref_lib [(''09:00'', Add ''A''), (''09:01'', Add ''B''),
      (''09:02'', Delete 2), (''09:03'', Add ''C'')] None))) \<and>
   \<not> distinct (added_ids (snd (runs ref_lib [(''09:00'', Add ''A''), (''09:01'', Add ''B''),
      (''09:02'', Delete 2), (''09:03'', Add ''C'')] None)))"
  by (simp add: main_def cmd_add_def cmd_delete_def load_def save_def ref_lib_def next_id_def
      strip_def isspace_def Let_def)

end
